theory Spec2Isabelle
  imports Complex_Main
begin

section \<open>Python strings\<close>

text \<open>
  A Python \<open>str\<close> is a sequence of code points. The model takes \<^typ>\<open>string\<close>, one
  \<^typ>\<open>char\<close> for one code point, which covers the code points below 256. The three
  library operations the program calls are written out for that range:
  \<^item> \<open>str.splitlines()\<close> ends a line at LF, VT, FF, CR, FS, GS, RS, NEL, and at CR LF taken
    as one boundary; a last line that is empty is not returned;
  \<^item> \<open>str.strip()\<close> drops the characters for which \<open>str.isspace()\<close> holds from both ends;
  \<^item> \<open>str.upper()\<close> maps \<open>a\<close>..\<open>z\<close> to \<open>A\<close>..\<open>Z\<close> and leaves every other ASCII character
    as it is. Above ASCII the upper-case form of a code point may lie outside the range of
    \<^typ>\<open>char\<close>; the model leaves such a character unchanged. The program only ever tests
    whether an upper-cased character is one of \<open>A\<close>, \<open>T\<close>, \<open>C\<close>, \<open>G\<close>, and no code point
    other than these four and their lower-case forms has an upper-case form made of them.
\<close>

definition is_linebreak :: "char \<Rightarrow> bool" where
  "is_linebreak c =
     (c \<in> set [CHR 0x0A, CHR 0x0B, CHR 0x0C, CHR 0x0D, CHR 0x1C, CHR 0x1D, CHR 0x1E, CHR 0x85])"

definition isspace :: "char \<Rightarrow> bool" where
  "isspace c =
     (c \<in> set [CHR 0x09, CHR 0x0A, CHR 0x0B, CHR 0x0C, CHR 0x0D, CHR 0x1C, CHR 0x1D, CHR 0x1E,
               CHR 0x1F, CHR 0x20, CHR 0x85, CHR 0xA0])"

text \<open>
  \<open>split_from cur s\<close> is the scan of \<open>splitlines\<close> with \<open>cur\<close> the part of the current line
  read so far.
\<close>

fun split_from :: "string \<Rightarrow> string \<Rightarrow> string list" where
  "split_from cur [] = (if cur = [] then [] else [cur])"
| "split_from cur [c] = (if is_linebreak c then [cur] else [cur @ [c]])"
| "split_from cur (c # d # cs) =
     (if c = CHR 0x0D \<and> d = CHR 0x0A then cur # split_from [] cs
      else if is_linebreak c then cur # split_from [] (d # cs)
      else split_from (cur @ [c]) (d # cs))"

definition splitlines :: "string \<Rightarrow> string list" where
  "splitlines s = split_from [] s"

definition strip :: "string \<Rightarrow> string" where
  "strip s = rev (dropWhile isspace (rev (dropWhile isspace s)))"

definition upper_char :: "char \<Rightarrow> char" where
  "upper_char c =
     (if (97::nat) \<le> of_char c \<and> of_char c \<le> (122::nat) then char_of (of_char c - (32::nat))
      else c)"

definition upper :: "string \<Rightarrow> string" where
  "upper s = map upper_char s"

definition startswith :: "string \<Rightarrow> string \<Rightarrow> bool" where
  "startswith s p = (take (length p) s = p)"

text \<open>\<open>py_in x s\<close> is Python's \<open>x in s\<close> on strings: \<open>x\<close> occurs in \<open>s\<close> as a contiguous run.\<close>

fun py_in :: "string \<Rightarrow> string \<Rightarrow> bool" where
  "py_in x [] = (x = [])"
| "py_in x (c # cs) = (startswith (c # cs) x \<or> py_in x cs)"

section \<open>The sequence validator of \<open>app.py\<close>\<close>

datatype error = ValueError string

definition invalid_message :: string where
  "invalid_message =
     ''Invalid DNA sequence detected! Ensure the sequence contains only A, T, C, and G.''"

text \<open>
  \<open>cleaned\<close> is the local \<open>cleaned_sequence\<close>: the lines that do not start with \<open>>\<close>, each
  stripped, joined with no separator.
\<close>

definition cleaned :: "string \<Rightarrow> string" where
  "cleaned sequence =
     concat (map strip (filter (\<lambda>line. \<not> startswith line ''>'') (splitlines sequence)))"

definition clean_and_validate_sequence :: "string \<Rightarrow> error + string" where
  "clean_and_validate_sequence sequence =
     (let cleaned_sequence = cleaned sequence
      in if \<not> list_all (\<lambda>base. py_in [base] ''ATCG'') (upper cleaned_sequence)
         then Inl (ValueError invalid_message)
         else Inr (upper cleaned_sequence))"

section \<open>The marker analysis of \<open>utils/nucleotide_analysis.py\<close>\<close>

text \<open>
  A row of the marker table has the three columns \<open>Marker\<close>, \<open>Associated Risk\<close> and
  \<open>Description\<close>; an entry of \<open>markers_detected\<close> is a dictionary with the same three keys.
  Risks and thresholds are Python floats. Every finite float is a real number and floats
  compare as the reals they are, so values and comparisons are modelled in \<^typ>\<open>real\<close>.
  Float addition is not the addition of reals: it rounds its result. The functions that add
  take the addition as their first argument \<open>add\<close>, and nothing is assumed of it: what is
  proved for every \<open>add\<close> holds of the addition the program runs with.
\<close>

record marker_record =
  Marker :: string
  Associated_Risk :: real
  Description :: string

record risk_summary =
  Detected_Markers :: nat
  Total_Risk_Score :: real

text \<open>
  \<open>load_disease_markers\<close> reads \<open>data/disease_markers.csv\<close>. What the read yields is the
  argument \<open>file\<close>: \<open>None\<close> when the file does not exist (\<open>FileNotFoundError\<close>),
  \<open>Some rows\<close> when it exists and holds the rows \<open>rows\<close> under the three column names.
\<close>

type_synonym marker_file = "marker_record list option"

definition default_markers :: "marker_record list" where
  "default_markers =
     [\<lparr>Marker = ''ATCGT'', Associated_Risk = 0.8,
        Description = ''Marker linked to cholesterol regulation''\<rparr>,
      \<lparr>Marker = ''GCTAG'', Associated_Risk = 0.6,
        Description = ''Gene sequence associated with blood pressure''\<rparr>,
      \<lparr>Marker = ''TTAGC'', Associated_Risk = 0.7,
        Description = ''Known mutation affecting heart function''\<rparr>,
      \<lparr>Marker = ''CCTGA'', Associated_Risk = 0.9,
        Description = ''Potential risk for artery blockage''\<rparr>,
      \<lparr>Marker = ''AGGCT'', Associated_Risk = 0.5,
        Description = ''Linked to irregular heartbeat''\<rparr>]"

definition load_disease_markers :: "marker_file \<Rightarrow> marker_record list" where
  "load_disease_markers file =
     (case file of Some markers_df \<Rightarrow> markers_df | None \<Rightarrow> default_markers)"

text \<open>
  The loop over \<open>markers_df.iterrows()\<close>, with the two variables it updates,
  \<open>markers_detected\<close> and \<open>total_risk_score\<close>, as its state. The statement
  \<open>total_risk_score += row["Associated Risk"]\<close> is \<open>add total_risk_score (Associated_Risk row)\<close>.
\<close>

fun scan_rows ::
  "(real \<Rightarrow> real \<Rightarrow> real) \<Rightarrow> marker_record list \<Rightarrow> string \<Rightarrow>
     marker_record list \<times> real \<Rightarrow> marker_record list \<times> real"
where
  "scan_rows add [] sequence state = state"
| "scan_rows add (row # rows) sequence (markers_detected, total_risk_score) =
     (if py_in (Marker row) sequence
      then scan_rows add rows sequence
             (markers_detected @
                [\<lparr>Marker = Marker row, Associated_Risk = Associated_Risk row,
                  Description = Description row\<rparr>],
              add total_risk_score (Associated_Risk row))
      else scan_rows add rows sequence (markers_detected, total_risk_score))"

definition analyze_sequence ::
  "(real \<Rightarrow> real \<Rightarrow> real) \<Rightarrow> marker_file \<Rightarrow> string \<Rightarrow> real \<Rightarrow>
     marker_record list \<times> risk_summary"
where
  "analyze_sequence add file sequence user_threshold =
     (let markers_df = load_disease_markers file;
          valid_sequence = list_all (\<lambda>base. py_in [base] ''ATCG'') sequence
      in if \<not> valid_sequence
         then ([], \<lparr>Detected_Markers = 0, Total_Risk_Score = 0\<rparr>)
         else
           (let (markers_detected, total_risk_score) = scan_rows add markers_df sequence ([], 0);
                filtered_markers =
                  filter (\<lambda>marker. user_threshold \<le> Associated_Risk marker) markers_detected
            in (filtered_markers,
                \<lparr>Detected_Markers = length filtered_markers,
                 Total_Risk_Score = total_risk_score\<rparr>)))"

section \<open>The call in its environment\<close>

text \<open>
  Above, \<open>analyze_sequence\<close> takes as its argument \<open>file\<close> what the read of the marker file
  yields. The call \<open>analyze_sequence(sequence, user_threshold)\<close> of the program does that read
  itself: the first statement of its body calls \<open>load_disease_markers\<close>, which calls
  \<open>pd.read_csv(file_path)\<close>. Here the environment is explicit: a world holds the files that
  contain a table, by path, and the log of the I/O operations performed so far. \<open>read_csv\<close>
  looks the path up (\<open>None\<close> is \<open>FileNotFoundError\<close>) and appends the read to the log;
  \<open>analyze_sequence_io\<close> is the program's call, returning the result and the world after it.
\<close>

datatype io_event = ReadCsv string

record world =
  files :: "(string \<times> marker_record list) list"
  io_log :: "io_event list"

definition file_path :: string where
  "file_path = ''data/disease_markers.csv''"

definition read_csv :: "string \<Rightarrow> world \<Rightarrow> marker_file \<times> world" where
  "read_csv path w = (map_of (files w) path, w\<lparr>io_log := io_log w @ [ReadCsv path]\<rparr>)"

definition analyze_sequence_io ::
  "(real \<Rightarrow> real \<Rightarrow> real) \<Rightarrow> string \<Rightarrow> real \<Rightarrow> world \<Rightarrow>
     (marker_record list \<times> risk_summary) \<times> world"
where
  "analyze_sequence_io add sequence user_threshold w =
     (let (file, w') = read_csv file_path w
      in (analyze_sequence add file sequence user_threshold, w'))"

section \<open>The analysis as the specification words it\<close>

text \<open>
  The specification describes \<open>analyze(sequence, referenceTable, threshold)\<close>: an invalid
  sequence gives the empty result with a zero summary; otherwise the matched records are
  those whose marker occurs in the sequence, the detections are the matched records with
  \<open>risk >= threshold\<close>, the count is the length of the detections and the total score is
  the running total to which the risk of each matched record is added, in table order.
\<close>

definition analyze_spec ::
  "(real \<Rightarrow> real \<Rightarrow> real) \<Rightarrow> string \<Rightarrow> marker_record list \<Rightarrow> real \<Rightarrow>
     marker_record list \<times> risk_summary"
where
  "analyze_spec add sequence referenceTable threshold =
     (if \<exists>c\<in>set sequence. c \<notin> set ''ATCG''
      then ([], \<lparr>Detected_Markers = 0, Total_Risk_Score = 0\<rparr>)
      else
        (let matched = filter (\<lambda>record. \<exists>p q. sequence = p @ Marker record @ q) referenceTable;
             filteredList = filter (\<lambda>d. threshold \<le> Associated_Risk d) matched
         in (filteredList,
             \<lparr>Detected_Markers = length filteredList,
              Total_Risk_Score = foldl add 0 (map Associated_Risk matched)\<rparr>)))"

section \<open>Facts about the string operations\<close>

lemma py_in_iff: "py_in x s \<longleftrightarrow> (\<exists>p q. s = p @ x @ q)"
proof (induction s)
  case Nil
  show ?case by auto
next
  case (Cons c cs)
  have "startswith (c # cs) x \<longleftrightarrow> (\<exists>q. c # cs = x @ q)"
    unfolding startswith_def
    by (metis append_eq_conv_conj append_take_drop_id)
  moreover have "(\<exists>p q. c # cs = p @ x @ q) \<longleftrightarrow>
      (\<exists>q. c # cs = x @ q) \<or> (\<exists>p q. cs = p @ x @ q)"
  proof
    assume "\<exists>p q. c # cs = p @ x @ q"
    then obtain p q where pq: "c # cs = p @ x @ q" by blast
    show "(\<exists>q. c # cs = x @ q) \<or> (\<exists>p q. cs = p @ x @ q)"
    proof (cases p)
      case Nil
      with pq show ?thesis by auto
    next
      case (Cons a p')
      with pq have "cs = p' @ x @ q" by simp
      then show ?thesis by blast
    qed
  next
    assume "(\<exists>q. c # cs = x @ q) \<or> (\<exists>p q. cs = p @ x @ q)"
    then show "\<exists>p q. c # cs = p @ x @ q"
    proof
      assume "\<exists>q. c # cs = x @ q"
      then obtain q where "c # cs = [] @ x @ q" by auto
      then show ?thesis by blast
    next
      assume "\<exists>p q. cs = p @ x @ q"
      then obtain p q where "c # cs = (c # p) @ x @ q" by auto
      then show ?thesis by blast
    qed
  qed
  ultimately show ?case using Cons.IH by simp
qed

lemma py_in_single: "py_in [c] s \<longleftrightarrow> c \<in> set s"
  by (induction s) (auto simp: startswith_def)

lemma in_ATCG_code: "x \<in> set ''ATCG'' \<longleftrightarrow> (of_char x :: nat) \<in> {65, 84, 67, 71}"
proof -
  have "(x = CHR ''A'') = ((of_char x :: nat) = 65)" "(x = CHR ''T'') = ((of_char x :: nat) = 84)"
       "(x = CHR ''C'') = ((of_char x :: nat) = 67)" "(x = CHR ''G'') = ((of_char x :: nat) = 71)"
    using of_char_eq_iff [of x "CHR ''A''", where ?'a = nat]
      of_char_eq_iff [of x "CHR ''T''", where ?'a = nat]
      of_char_eq_iff [of x "CHR ''C''", where ?'a = nat]
      of_char_eq_iff [of x "CHR ''G''", where ?'a = nat]
    by simp_all
  then show ?thesis by auto
qed
lemma in_atcg_code: "x \<in> set ''atcg'' \<longleftrightarrow> (of_char x :: nat) \<in> {97, 116, 99, 103}"
proof -
  have "(x = CHR ''a'') = ((of_char x :: nat) = 97)" "(x = CHR ''t'') = ((of_char x :: nat) = 116)"
       "(x = CHR ''c'') = ((of_char x :: nat) = 99)" "(x = CHR ''g'') = ((of_char x :: nat) = 103)"
    using of_char_eq_iff [of x "CHR ''a''", where ?'a = nat]
      of_char_eq_iff [of x "CHR ''t''", where ?'a = nat]
      of_char_eq_iff [of x "CHR ''c''", where ?'a = nat]
      of_char_eq_iff [of x "CHR ''g''", where ?'a = nat]
    by simp_all
  then show ?thesis by auto
qed
lemma of_char_upper_char:
  "(of_char (upper_char c) :: nat) =
     (if 97 \<le> (of_char c :: nat) \<and> (of_char c :: nat) \<le> 122 then of_char c - 32 else of_char c)"
proof -
  have "(of_char c :: nat) < 256" by simp
  then have "(of_char c - 32 :: nat) mod 256 = of_char c - 32"
    by (simp add: less_imp_diff_less)
  then show ?thesis
    by (simp add: upper_char_def of_char_of)
qed
lemma upper_char_ATCG: "upper_char c \<in> set ''ATCG'' \<longleftrightarrow> c \<in> set ''ATCG'' \<or> c \<in> set ''atcg''"
  unfolding in_ATCG_code in_atcg_code of_char_upper_char
  by auto
lemma upper_char_fixed: "c \<in> set ''ATCG'' \<Longrightarrow> upper_char c = c"
  unfolding in_ATCG_code upper_char_def by auto

lemma base_plain:
  assumes "c \<in> set ''ATCGatcg''"
  shows "\<not> is_linebreak c \<and> \<not> isspace c \<and> c \<noteq> CHR ''>''"
proof -
  from assms consider "c = CHR ''A''" | "c = CHR ''T''" | "c = CHR ''C''" | "c = CHR ''G''"
    | "c = CHR ''a''" | "c = CHR ''t''" | "c = CHR ''c''" | "c = CHR ''g''"
    by auto
  then show ?thesis
    by cases (simp_all add: is_linebreak_def isspace_def)
qed

lemma split_from_one_line:
  "\<forall>c\<in>set s. \<not> is_linebreak c \<Longrightarrow> split_from cur s = (if cur @ s = [] then [] else [cur @ s])"
  by (induction cur s rule: split_from.induct) (auto simp: is_linebreak_def)

lemma splitlines_one_line:
  "\<forall>c\<in>set s. \<not> is_linebreak c \<Longrightarrow> splitlines s = (if s = [] then [] else [s])"
  by (simp add: splitlines_def split_from_one_line)

lemma dropWhile_none: "\<forall>c\<in>set s. \<not> P c \<Longrightarrow> dropWhile P s = s"
  by (cases s) auto

lemma strip_no_space: "\<forall>c\<in>set s. \<not> isspace c \<Longrightarrow> strip s = s"
  by (simp add: strip_def dropWhile_none)


lemma valid_upper_iff:
  "list_all (\<lambda>base. py_in [base] ''ATCG'') (upper s) \<longleftrightarrow> (\<forall>c\<in>set s. c \<in> set ''ATCGatcg'')"
proof -
  have "list_all (\<lambda>base. py_in [base] ''ATCG'') (upper s) \<longleftrightarrow>
      (\<forall>c\<in>set s. upper_char c \<in> set ''ATCG'')"
    by (simp add: upper_def list_all_iff py_in_single del: py_in.simps)
  also have "\<dots> \<longleftrightarrow> (\<forall>c\<in>set s. c \<in> set ''ATCG'' \<or> c \<in> set ''atcg'')"
    by (simp only: upper_char_ATCG)
  also have "\<dots> \<longleftrightarrow> (\<forall>c\<in>set s. c \<in> set ''ATCGatcg'')"
    by auto
  finally show ?thesis .
qed

lemma cleaned_plain:
  assumes "\<forall>c\<in>set s. c \<in> set ''ATCGatcg''"
  shows "cleaned s = s"
proof -
  have plain: "\<forall>c\<in>set s. \<not> is_linebreak c \<and> \<not> isspace c \<and> c \<noteq> CHR ''>''"
    using assms base_plain by blast
  show ?thesis
  proof (cases s)
    case Nil
    then show ?thesis by (simp add: cleaned_def splitlines_def)
  next
    case (Cons a as)
    with plain have "a \<noteq> CHR ''>''" by simp
    with Cons have "\<not> startswith s ''>''" by (simp add: startswith_def)
    moreover from plain Cons have "splitlines s = [s]" by (simp add: splitlines_one_line)
    moreover from plain have "strip s = s" by (simp add: strip_no_space)
    ultimately show ?thesis by (simp add: cleaned_def)
  qed
qed

lemma upper_fixed: "\<forall>c\<in>set s. c \<in> set ''ATCG'' \<Longrightarrow> upper s = s"
  unfolding upper_def by (simp add: map_idI upper_char_fixed del: set_simps)


lemma upper_char_bases:
  "upper_char (CHR ''a'') = CHR ''A''" "upper_char (CHR ''t'') = CHR ''T''"
  "upper_char (CHR ''c'') = CHR ''C''" "upper_char (CHR ''g'') = CHR ''G''"
  "upper_char (CHR ''A'') = CHR ''A''" "upper_char (CHR ''T'') = CHR ''T''"
  "upper_char (CHR ''C'') = CHR ''C''" "upper_char (CHR ''G'') = CHR ''G''"
  by code_simp+

lemma upper_char_base:
  assumes "c \<in> set ''ATCGatcg''"
  shows "upper_char c =
      (if c = CHR ''a'' then CHR ''A'' else if c = CHR ''t'' then CHR ''T''
       else if c = CHR ''c'' then CHR ''C'' else if c = CHR ''g'' then CHR ''G'' else c)"
proof -
  from assms consider "c = CHR ''A''" | "c = CHR ''T''" | "c = CHR ''C''" | "c = CHR ''G''"
    | "c = CHR ''a''" | "c = CHR ''t''" | "c = CHR ''c''" | "c = CHR ''g''"
    by auto
  then show ?thesis
    by cases (simp_all add: upper_char_bases)
qed

lemma concat_map_filter_mem:
  assumes "x \<in> set xs" and "P x"
  shows "\<exists>p q. concat (map f (filter P xs)) = p @ f x @ q"
proof -
  from assms(1) obtain ys zs where "xs = ys @ x # zs" by (auto dest: split_list)
  with assms(2) have "concat (map f (filter P xs)) =
      concat (map f (filter P ys)) @ f x @ concat (map f (filter P zs))"
    by simp
  then show ?thesis by blast
qed

lemma dropWhile_snoc: "\<not> P x \<Longrightarrow> \<exists>r. dropWhile P (xs @ [x]) = r @ [x]"
  by (induction xs) auto

lemma strip_indented:
  assumes "\<forall>c\<in>set ws. isspace c" and "\<not> isspace x"
  shows "\<exists>r. strip (ws @ x # rest) = x # r"
proof -
  have "dropWhile isspace (ws @ x # rest) = x # rest"
    using assms by (simp add: dropWhile_append2)
  moreover obtain r where "dropWhile isspace (rev rest @ [x]) = r @ [x]"
    using dropWhile_snoc [of isspace x "rev rest"] assms(2) by blast
  ultimately have "strip (ws @ x # rest) = x # rev r"
    by (simp add: strip_def)
  then show ?thesis by blast
qed

lemma clean_raises_iff:
  "clean_and_validate_sequence raw = Inl (ValueError invalid_message) \<longleftrightarrow>
     (\<exists>c\<in>set (cleaned raw). c \<notin> set ''ATCGatcg'')"
  unfolding clean_and_validate_sequence_def Let_def valid_upper_iff by simp

lemma clean_accepts:
  "\<forall>c\<in>set (cleaned raw). c \<in> set ''ATCGatcg'' \<Longrightarrow>
     clean_and_validate_sequence raw = Inr (upper (cleaned raw))"
  unfolding clean_and_validate_sequence_def Let_def valid_upper_iff by simp

lemma lower_base_invalid:
  assumes "c \<in> set ''atcg''"
  shows "c \<notin> set ''ATCG''"
proof -
  from assms consider "c = CHR ''a''" | "c = CHR ''t''" | "c = CHR ''c''" | "c = CHR ''g''"
    by auto
  then show ?thesis by cases simp_all
qed

section \<open>Facts about the marker scan\<close>

lemma scan_rows_eq:
  "scan_rows add rows sequence (acc, tot) =
     (acc @ filter (\<lambda>row. py_in (Marker row) sequence) rows,
      foldl add tot (map Associated_Risk (filter (\<lambda>row. py_in (Marker row) sequence) rows)))"
  by (induction rows arbitrary: acc tot) (simp_all del: py_in.simps)

text \<open>With the exact addition of the reals the running total is the sum.\<close>

lemma foldl_plus_sum_list: "foldl (+) (a::real) xs = a + sum_list xs"
  by (induction xs arbitrary: a) simp_all

lemma valid_sequence_iff:
  "list_all (\<lambda>base. py_in [base] ''ATCG'') sequence \<longleftrightarrow> (\<forall>c\<in>set sequence. c \<in> set ''ATCG'')"
  by (simp add: list_all_iff py_in_single del: py_in.simps)

lemma analyze_sequence_invalid:
  "\<exists>c\<in>set sequence. c \<notin> set ''ATCG'' \<Longrightarrow>
     analyze_sequence add file sequence t =
       ([], \<lparr>Detected_Markers = 0, Total_Risk_Score = 0\<rparr>)"
  unfolding analyze_sequence_def Let_def valid_sequence_iff by auto

lemma analyze_sequence_valid:
  assumes "\<forall>c\<in>set sequence. c \<in> set ''ATCG''"
  shows "analyze_sequence add file sequence t =
     (filter (\<lambda>m. t \<le> Associated_Risk m)
        (filter (\<lambda>row. py_in (Marker row) sequence) (load_disease_markers file)),
      \<lparr>Detected_Markers =
         length (filter (\<lambda>m. t \<le> Associated_Risk m)
           (filter (\<lambda>row. py_in (Marker row) sequence) (load_disease_markers file))),
       Total_Risk_Score =
         foldl add 0 (map Associated_Risk
           (filter (\<lambda>row. py_in (Marker row) sequence) (load_disease_markers file)))\<rparr>)"
  using assms unfolding analyze_sequence_def Let_def valid_sequence_iff scan_rows_eq
  by simp

lemma analyze_sequence_spec:
  "analyze_sequence add file sequence t =
     analyze_spec add sequence (load_disease_markers file) t"
proof (cases "\<forall>c\<in>set sequence. c \<in> set ''ATCG''")
  case True
  then show ?thesis
    by (simp add: analyze_sequence_valid analyze_spec_def Let_def py_in_iff
        del: py_in.simps set_simps)
next
  case False
  then show ?thesis
    by (simp add: analyze_sequence_invalid analyze_spec_def del: set_simps)
qed

section \<open>Properties of the marker analysis\<close>



text \<open>
  C2 as stated does not hold of the code: the call performs I/O. With no file at all and an
  empty log, the call on \<open>ATCGT\<close> at threshold 0.5 leaves the read of
  \<open>data/disease_markers.csv\<close> in the log.
\<close>

theorem analyze_sequence_performs_read:
  "io_log (snd (analyze_sequence_io (+) ''ATCGT'' 0.5 \<lparr>files = [], io_log = []\<rparr>)) =
     [ReadCsv ''data/disease_markers.csv'']
   \<and> io_log (snd (analyze_sequence_io (+) ''ATCGT'' 0.5 \<lparr>files = [], io_log = []\<rparr>)) \<noteq> []"
  by (simp add: analyze_sequence_io_def read_csv_def file_path_def)

text \<open>
  C2, amended. A call of \<open>analyze_sequence\<close> performs exactly one I/O operation, the read of
  \<open>data/disease_markers.csv\<close>, and no write: the files, the marker table among them, are
  after the call what they were before it. The result is the function \<open>analyze_spec\<close> of the
  specification applied to the sequence, the table that the read yields (the built-in table
  when the file is missing) and the threshold, and to nothing else of the environment.
\<close>

theorem analyze_sequence_reads_once:
  "io_log (snd (analyze_sequence_io add sequence t w)) = io_log w @ [ReadCsv file_path]
   \<and> files (snd (analyze_sequence_io add sequence t w)) = files w
   \<and> fst (analyze_sequence_io add sequence t w) =
       analyze_spec add sequence (load_disease_markers (map_of (files w) file_path)) t"
  by (simp add: analyze_sequence_io_def read_csv_def analyze_sequence_spec)

theorem analyze_sequence_reads_once_witness:
  "io_log (snd (analyze_sequence_io (+) ''ATCGT'' 0.5
       \<lparr>files = [(''data/disease_markers.csv'', [])], io_log = []\<rparr>)) =
     [ReadCsv ''data/disease_markers.csv'']
   \<and> files (snd (analyze_sequence_io (+) ''ATCGT'' 0.5
       \<lparr>files = [(''data/disease_markers.csv'', [])], io_log = []\<rparr>)) =
     [(''data/disease_markers.csv'', [])]
   \<and> fst (analyze_sequence_io (+) ''ATCGT'' 0.5
       \<lparr>files = [(''data/disease_markers.csv'', [])], io_log = []\<rparr>) =
     analyze_spec (+) ''ATCGT'' [] 0.5"
  using analyze_sequence_reads_once
    [of "(+)" "''ATCGT''" "0.5" "\<lparr>files = [(''data/disease_markers.csv'', [])], io_log = []\<rparr>"]
  by (simp add: file_path_def load_disease_markers_def)

text \<open>
  C4. For a sequence with a character outside \<open>A\<close>, \<open>T\<close>, \<open>C\<close>, \<open>G\<close>, \<open>analyze_sequence\<close>
  returns the empty detection list and the summary with count 0 and score 0, for every marker
  table and every threshold.
\<close>

theorem analyze_invalid_sequence_fail_soft:
  "\<exists>c\<in>set sequence. c \<notin> set ''ATCG'' \<Longrightarrow>
     analyze_sequence add file sequence t =
       ([], \<lparr>Detected_Markers = 0, Total_Risk_Score = 0\<rparr>)"
  by (rule analyze_sequence_invalid)

theorem analyze_invalid_sequence_fail_soft_witness:
  "(\<exists>c\<in>set ''ATNG''. c \<notin> set ''ATCG'') \<and>
   analyze_sequence (+) None ''ATNG'' 0.5 =
     ([], \<lparr>Detected_Markers = 0, Total_Risk_Score = 0\<rparr>)"
proof -
  have h: "\<exists>c\<in>set ''ATNG''. c \<notin> set ''ATCG''" by simp
  from analyze_invalid_sequence_fail_soft [OF h, of "(+)" None "0.5"] h show ?thesis by blast
qed

text \<open>
  C5. For a fixed sequence and marker table and thresholds \<open>t1 < t2\<close>, the detections returned
  at \<open>t2\<close> are those returned at \<open>t1\<close> whose risk reaches \<open>t2\<close>, hence a subset of them, and
  \<open>Detected Markers\<close> at \<open>t2\<close> is at most \<open>Detected Markers\<close> at \<open>t1\<close>. This holds for every
  sequence, valid or not.
\<close>

theorem threshold_monotonic:
  assumes "t1 < t2"
  shows "fst (analyze_sequence add file sequence t2) =
           filter (\<lambda>m. t2 \<le> Associated_Risk m) (fst (analyze_sequence add file sequence t1))
         \<and> set (fst (analyze_sequence add file sequence t2)) \<subseteq>
             set (fst (analyze_sequence add file sequence t1))
         \<and> Detected_Markers (snd (analyze_sequence add file sequence t2)) \<le>
             Detected_Markers (snd (analyze_sequence add file sequence t1))"
proof (cases "\<forall>c\<in>set sequence. c \<in> set ''ATCG''")
  case True
  let ?matched = "filter (\<lambda>row. py_in (Marker row) sequence) (load_disease_markers file)"
  have sub: "filter (\<lambda>m. t2 \<le> Associated_Risk m) ?matched =
      filter (\<lambda>m. t2 \<le> Associated_Risk m) (filter (\<lambda>m. t1 \<le> Associated_Risk m) ?matched)"
    using assms by (auto simp del: py_in.simps intro: filter_cong)
  have len: "length (filter (\<lambda>m. t2 \<le> Associated_Risk m) ?matched) \<le>
      length (filter (\<lambda>m. t1 \<le> Associated_Risk m) ?matched)"
    by (subst sub) (rule length_filter_le)
  have set: "set (filter (\<lambda>m. t2 \<le> Associated_Risk m) ?matched) \<subseteq>
      set (filter (\<lambda>m. t1 \<le> Associated_Risk m) ?matched)"
    using assms by auto
  show ?thesis
    unfolding analyze_sequence_valid [OF True] fst_conv snd_conv risk_summary.simps
    using sub len set by blast
next
  case False
  then show ?thesis by (simp add: analyze_sequence_invalid del: set_simps)
qed

theorem threshold_monotonic_witness:
  "(0.5::real) < 0.6 \<and>
   set (fst (analyze_sequence (+) None ''AGGCTACCTGA'' 0.6)) \<subseteq>
     set (fst (analyze_sequence (+) None ''AGGCTACCTGA'' 0.5))
   \<and> Detected_Markers (snd (analyze_sequence (+) None ''AGGCTACCTGA'' 0.6)) \<le>
       Detected_Markers (snd (analyze_sequence (+) None ''AGGCTACCTGA'' 0.5))"
proof -
  have h: "(0.5::real) < 0.6" by simp
  from threshold_monotonic [OF h, of "(+)" None "''AGGCTACCTGA''"] h show ?thesis by blast
qed

text \<open>
  C6. On \<open>AGGCTACCTGA\<close> with the built-in five-row table and threshold 0.5 the result has
  exactly two detections, \<open>CCTGA\<close> (risk 0.9) and \<open>AGGCT\<close> (risk 0.5, kept because the filter
  is \<open>risk >= threshold\<close>), in table order, with count 2 and total score 1.4. The total is
  \<open>0 + 0.9 + 0.5\<close>: the statement holds for every addition that gives \<open>0 + 0.9 = 0.9\<close> and
  \<open>0.9 + 0.5 = 1.4\<close>, as the addition of the reals and the addition of floats both do.
\<close>

theorem default_table_example:
  assumes "add 0 0.9 = 0.9" and "add 0.9 0.5 = 1.4"
  shows "analyze_sequence add None ''AGGCTACCTGA'' 0.5 =
  ([\<lparr>Marker = ''CCTGA'', Associated_Risk = 0.9, Description = ''Potential risk for artery blockage''\<rparr>,
    \<lparr>Marker = ''AGGCT'', Associated_Risk = 0.5, Description = ''Linked to irregular heartbeat''\<rparr>],
   \<lparr>Detected_Markers = 2, Total_Risk_Score = 1.4\<rparr>)"
proof -
  have "analyze_sequence add None ''AGGCTACCTGA'' 0.5 =
    ([\<lparr>Marker = ''CCTGA'', Associated_Risk = 0.9,
        Description = ''Potential risk for artery blockage''\<rparr>,
      \<lparr>Marker = ''AGGCT'', Associated_Risk = 0.5, Description = ''Linked to irregular heartbeat''\<rparr>],
     \<lparr>Detected_Markers = 2, Total_Risk_Score = add (add 0 0.9) 0.5\<rparr>)"
    by (simp add: analyze_sequence_def load_disease_markers_def default_markers_def
        startswith_def)
  then show ?thesis by (simp only: assms)
qed

theorem default_table_example_witness:
  "analyze_sequence (+) None ''AGGCTACCTGA'' 0.5 =
  ([\<lparr>Marker = ''CCTGA'', Associated_Risk = 0.9, Description = ''Potential risk for artery blockage''\<rparr>,
    \<lparr>Marker = ''AGGCT'', Associated_Risk = 0.5, Description = ''Linked to irregular heartbeat''\<rparr>],
   \<lparr>Detected_Markers = 2, Total_Risk_Score = 1.4\<rparr>)"
proof -
  have h1: "(0::real) + 0.9 = 0.9" by simp
  have h2: "(0.9::real) + 0.5 = 1.4" by simp
  from default_table_example [of "(+)", OF h1 h2] show ?thesis .
qed

section \<open>Properties of the sequence validator\<close>

text \<open>
  C3. \<open>clean_and_validate_sequence\<close> raises if and only if the text made of the lines that do
  not start with \<open>>\<close>, each stripped of leading and trailing whitespace and joined, holds a
  character that is none of \<open>A\<close>, \<open>T\<close>, \<open>C\<close>, \<open>G\<close> in either letter case. The error is returned
  to the caller and is the \<open>ValueError\<close> with the message about invalid bases.
\<close>

theorem normalize_raises_iff:
  "((\<exists>e. clean_and_validate_sequence raw = Inl e) \<longleftrightarrow>
      (\<exists>c\<in>set (concat (map strip (filter (\<lambda>line. \<not> startswith line ''>'') (splitlines raw)))).
          c \<notin> set ''ATCGatcg''))
   \<and> (\<forall>e. clean_and_validate_sequence raw = Inl e \<longrightarrow> e = ValueError invalid_message)"
proof -
  have "(\<exists>e. clean_and_validate_sequence raw = Inl e) \<longleftrightarrow>
      (\<exists>c\<in>set (cleaned raw). c \<notin> set ''ATCGatcg'')"
    unfolding clean_and_validate_sequence_def Let_def valid_upper_iff by simp
  moreover have "\<forall>e. clean_and_validate_sequence raw = Inl e \<longrightarrow> e = ValueError invalid_message"
    unfolding clean_and_validate_sequence_def Let_def by simp
  ultimately show ?thesis unfolding cleaned_def by blast
qed

theorem normalize_raises_iff_witness:
  "(\<exists>c\<in>set (concat (map strip (filter (\<lambda>line. \<not> startswith line ''>'')
        (splitlines (''>id'' @ [CHR 0x0A] @ ''ATNG''))))). c \<notin> set ''ATCGatcg'')
   \<and> clean_and_validate_sequence (''>id'' @ [CHR 0x0A] @ ''ATNG'') =
       Inl (ValueError invalid_message)"
proof -
  have "concat (map strip (filter (\<lambda>line. \<not> startswith line ''>'')
        (splitlines (''>id'' @ [CHR 0x0A] @ ''ATNG'')))) = ''ATNG''"
    by code_simp
  then have h: "\<exists>c\<in>set (concat (map strip (filter (\<lambda>line. \<not> startswith line ''>'')
        (splitlines (''>id'' @ [CHR 0x0A] @ ''ATNG''))))). c \<notin> set ''ATCGatcg''"
    by simp
  from normalize_raises_iff [of "''>id'' @ [CHR 0x0A] @ ''ATNG''"] h show ?thesis by blast
qed

text \<open>
  C7. When the lines that do not start with \<open>>\<close>, stripped and joined, hold only \<open>A\<close>, \<open>T\<close>,
  \<open>C\<close>, \<open>G\<close> in either case, \<open>clean_and_validate_sequence\<close> succeeds and returns that text
  in upper case (\<open>a\<close>, \<open>t\<close>, \<open>c\<close>, \<open>g\<close> replaced by \<open>A\<close>, \<open>T\<close>, \<open>C\<close>, \<open>G\<close>), of the same
  length. When every line starts with \<open>>\<close> the result is the empty string.
\<close>

theorem normalize_accepts_bases:
  "((\<forall>c\<in>set (cleaned raw). c \<in> set ''ATCGatcg'') \<longrightarrow>
      clean_and_validate_sequence raw = Inr (upper (cleaned raw))
      \<and> upper (cleaned raw) =
          map (\<lambda>c. if c = CHR ''a'' then CHR ''A'' else if c = CHR ''t'' then CHR ''T''
                    else if c = CHR ''c'' then CHR ''C'' else if c = CHR ''g'' then CHR ''G''
                    else c) (cleaned raw)
      \<and> length (upper (cleaned raw)) = length (cleaned raw))
   \<and> ((\<forall>line\<in>set (splitlines raw). startswith line ''>'') \<longrightarrow>
        clean_and_validate_sequence raw = Inr [])"
proof (intro conjI impI)
  assume h: "\<forall>c\<in>set (cleaned raw). c \<in> set ''ATCGatcg''"
  show "clean_and_validate_sequence raw = Inr (upper (cleaned raw))"
    using h by (rule clean_accepts)
  show "length (upper (cleaned raw)) = length (cleaned raw)"
    by (simp add: upper_def)
  from h show "upper (cleaned raw) =
      map (\<lambda>c. if c = CHR ''a'' then CHR ''A'' else if c = CHR ''t'' then CHR ''T''
                else if c = CHR ''c'' then CHR ''C'' else if c = CHR ''g'' then CHR ''G''
                else c) (cleaned raw)"
    unfolding upper_def using upper_char_base by (intro map_cong refl) blast
next
  assume "\<forall>line\<in>set (splitlines raw). startswith line ''>''"
  then have "filter (\<lambda>line. \<not> startswith line ''>'') (splitlines raw) = []"
    by (simp add: filter_empty_conv)
  then have "cleaned raw = []" by (simp add: cleaned_def)
  then show "clean_and_validate_sequence raw = Inr []"
    by (simp add: clean_and_validate_sequence_def upper_def)
qed

theorem normalize_accepts_bases_witness:
  "set (cleaned (''>hdr'' @ [CHR 0x0A] @ '' atCg '' @ [CHR 0x0A] @ ''GG'')) \<subseteq> set ''ATCGatcg''
   \<and> clean_and_validate_sequence (''>hdr'' @ [CHR 0x0A] @ '' atCg '' @ [CHR 0x0A] @ ''GG'') =
       Inr ''ATCGGG''
   \<and> list_all (\<lambda>line. startswith line ''>'') (splitlines (''>a'' @ [CHR 0x0A] @ ''>b''))
   \<and> clean_and_validate_sequence (''>a'' @ [CHR 0x0A] @ ''>b'') = Inr []"
proof -
  have cl: "cleaned (''>hdr'' @ [CHR 0x0A] @ '' atCg '' @ [CHR 0x0A] @ ''GG'') = ''atCgGG''"
    by code_simp
  have h1: "\<forall>c\<in>set (cleaned (''>hdr'' @ [CHR 0x0A] @ '' atCg '' @ [CHR 0x0A] @ ''GG'')).
      c \<in> set ''ATCGatcg''"
    unfolding cl by simp
  have sp: "splitlines (''>a'' @ [CHR 0x0A] @ ''>b'') = [''>a'', ''>b'']"
    by code_simp
  have h2: "\<forall>line\<in>set (splitlines (''>a'' @ [CHR 0x0A] @ ''>b'')). startswith line ''>''"
    unfolding sp by (simp add: startswith_def)
  from normalize_accepts_bases [of "''>hdr'' @ [CHR 0x0A] @ '' atCg '' @ [CHR 0x0A] @ ''GG''"] h1
  have "clean_and_validate_sequence (''>hdr'' @ [CHR 0x0A] @ '' atCg '' @ [CHR 0x0A] @ ''GG'') =
      Inr (map (\<lambda>c. if c = CHR ''a'' then CHR ''A'' else if c = CHR ''t'' then CHR ''T''
                else if c = CHR ''c'' then CHR ''C'' else if c = CHR ''g'' then CHR ''G''
                else c) ''atCgGG'')"
    unfolding cl by simp
  then have r1: "clean_and_validate_sequence (''>hdr'' @ [CHR 0x0A] @ '' atCg '' @ [CHR 0x0A] @ ''GG'') =
      Inr ''ATCGGG''"
    by simp
  from normalize_accepts_bases [of "''>a'' @ [CHR 0x0A] @ ''>b''"] h2
  have r2: "clean_and_validate_sequence (''>a'' @ [CHR 0x0A] @ ''>b'') = Inr []"
    by blast
  from h1 have s1: "set (cleaned (''>hdr'' @ [CHR 0x0A] @ '' atCg '' @ [CHR 0x0A] @ ''GG'')) \<subseteq>
      set ''ATCGatcg''"
    by blast
  from h2 have s2: "list_all (\<lambda>line. startswith line ''>'') (splitlines (''>a'' @ [CHR 0x0A] @ ''>b''))"
    by (simp only: list_all_iff)
  from s1 r1 s2 r2 show ?thesis by blast
qed

text \<open>
  C8. Idempotence: if \<open>clean_and_validate_sequence\<close> succeeds on a raw input with the result
  \<open>y\<close>, then it succeeds on \<open>y\<close> and returns \<open>y\<close>.
\<close>

theorem normalize_idempotent:
  assumes "clean_and_validate_sequence raw = Inr y"
  shows "clean_and_validate_sequence y = Inr y"
proof -
  have "clean_and_validate_sequence raw =
      (if \<forall>c\<in>set (cleaned raw). c \<in> set ''ATCGatcg'' then Inr (upper (cleaned raw))
       else Inl (ValueError invalid_message))"
    unfolding clean_and_validate_sequence_def Let_def valid_upper_iff by simp
  with assms have ok: "\<forall>c\<in>set (cleaned raw). c \<in> set ''ATCGatcg''"
    and y: "y = upper (cleaned raw)"
    by (simp_all split: if_splits del: set_simps)
  from ok have "list_all (\<lambda>base. py_in [base] ''ATCG'') (upper (cleaned raw))"
    by (simp only: valid_upper_iff)
  with y have bases: "\<forall>c\<in>set y. c \<in> set ''ATCG''"
    by (simp add: list_all_iff py_in_single del: py_in.simps set_simps)
  have wide: "\<forall>c\<in>set y. c \<in> set ''ATCGatcg''"
  proof
    fix c assume "c \<in> set y"
    with bases have "c \<in> set ''ATCG''" by blast
    then show "c \<in> set ''ATCGatcg''" by auto
  qed
  then have "cleaned y = y" by (rule cleaned_plain)
  moreover from bases have "upper y = y" by (rule upper_fixed)
  ultimately show ?thesis
    using clean_accepts [of y] wide by simp
qed

theorem normalize_idempotent_witness:
  "clean_and_validate_sequence (''>hdr'' @ [CHR 0x0A] @ '' atCg '' @ [CHR 0x0A] @ ''GG'') =
     Inr ''ATCGGG''
   \<and> clean_and_validate_sequence ''ATCGGG'' = Inr ''ATCGGG''"
proof -
  have h: "clean_and_validate_sequence (''>hdr'' @ [CHR 0x0A] @ '' atCg '' @ [CHR 0x0A] @ ''GG'') =
      Inr ''ATCGGG''"
    by code_simp
  from normalize_idempotent [OF h] h show ?thesis by blast
qed

text \<open>
  C10. A line is dropped as a header only if \<open>>\<close> is its first character before stripping.
  A line that begins with whitespace followed by \<open>>\<close> is kept; stripped, it starts with \<open>>\<close>
  and is part of the joined text, and \<open>clean_and_validate_sequence\<close> raises the
  invalid-sequence error.
\<close>

theorem indented_header_line_raises:
  assumes "line \<in> set (splitlines raw)"
    and "line = ws @ CHR ''>'' # rest" and "ws \<noteq> []" and "\<forall>c\<in>set ws. isspace c"
  shows "\<not> startswith line ''>''
    \<and> (\<exists>p q r. cleaned raw = p @ strip line @ q \<and> strip line = CHR ''>'' # r)
    \<and> clean_and_validate_sequence raw = Inl (ValueError invalid_message)"
proof -
  from assms(3) obtain w ws' where ws: "ws = w # ws'" by (cases ws) auto
  with assms(4) have "isspace w" by simp
  moreover have "\<not> isspace (CHR ''>'')" by (simp add: isspace_def)
  ultimately have "w \<noteq> CHR ''>''" by blast
  with ws assms(2) have kept: "\<not> startswith line ''>''" by (simp add: startswith_def)
  have "\<not> isspace (CHR ''>'')" by (simp add: isspace_def)
  with assms(2,4) obtain r where r: "strip line = CHR ''>'' # r"
    using strip_indented [of ws "CHR ''>''" rest] by blast
  from assms(1) kept obtain p q where pq: "cleaned raw = p @ strip line @ q"
    unfolding cleaned_def
    using concat_map_filter_mem [of line "splitlines raw" "\<lambda>l. \<not> startswith l ''>''" strip]
    by blast
  from pq r have "CHR ''>'' \<in> set (cleaned raw)" by simp
  moreover have "CHR ''>'' \<notin> set ''ATCGatcg''" by simp
  ultimately have "clean_and_validate_sequence raw = Inl (ValueError invalid_message)"
    unfolding clean_raises_iff by blast
  with kept pq r show ?thesis by blast
qed

theorem indented_header_line_raises_witness:
  "'' >hdr'' \<in> set (splitlines ('' >hdr'' @ [CHR 0x0A] @ ''ATCG''))
   \<and> '' >hdr'' = '' '' @ CHR ''>'' # ''hdr'' \<and> '' '' \<noteq> [] \<and> list_all isspace '' ''
   \<and> \<not> startswith '' >hdr'' ''>''
   \<and> clean_and_validate_sequence ('' >hdr'' @ [CHR 0x0A] @ ''ATCG'') =
       Inl (ValueError invalid_message)"
proof -
  have sp: "splitlines ('' >hdr'' @ [CHR 0x0A] @ ''ATCG'') = ['' >hdr'', ''ATCG'']"
    by code_simp
  have h1: "'' >hdr'' \<in> set (splitlines ('' >hdr'' @ [CHR 0x0A] @ ''ATCG''))"
    unfolding sp by simp
  have h2: "'' >hdr'' = '' '' @ CHR ''>'' # ''hdr''" by simp
  have h3: "'' '' \<noteq> []" by simp
  have h4: "\<forall>c\<in>set '' ''. isspace c" by (simp add: isspace_def)
  from h4 have s4: "list_all isspace '' ''" by (simp only: list_all_iff)
  from indented_header_line_raises [OF h1 h2 h3 h4] h1 h2 h3 s4 show ?thesis by blast
qed

section \<open>The two alphabet checks compared\<close>

text \<open>
  C9. The alphabet check of \<open>analyze_sequence\<close> is case-sensitive: a sequence with one of
  \<open>a\<close>, \<open>t\<close>, \<open>c\<close>, \<open>g\<close> in it gets the empty result with the zero summary, while
  \<open>clean_and_validate_sequence\<close> accepts a sequence of bases in either case and returns it in
  upper case.
\<close>

theorem analyze_rejects_lowercase:
  "((\<exists>c\<in>set sequence. c \<in> set ''atcg'') \<longrightarrow>
      analyze_sequence add file sequence t =
        ([], \<lparr>Detected_Markers = 0, Total_Risk_Score = 0\<rparr>))
   \<and> ((\<forall>c\<in>set sequence. c \<in> set ''ATCGatcg'') \<longrightarrow>
        clean_and_validate_sequence sequence = Inr (upper sequence))"
proof (intro conjI impI)
  assume "\<exists>c\<in>set sequence. c \<in> set ''atcg''"
  then have "\<exists>c\<in>set sequence. c \<notin> set ''ATCG''"
    using lower_base_invalid by blast
  then show "analyze_sequence add file sequence t =
      ([], \<lparr>Detected_Markers = 0, Total_Risk_Score = 0\<rparr>)"
    by (rule analyze_sequence_invalid)
next
  assume h: "\<forall>c\<in>set sequence. c \<in> set ''ATCGatcg''"
  then have eq: "cleaned sequence = sequence" by (rule cleaned_plain)
  from h have "\<forall>c\<in>set (cleaned sequence). c \<in> set ''ATCGatcg''"
    by (simp only: eq)
  then have "clean_and_validate_sequence sequence = Inr (upper (cleaned sequence))"
    by (rule clean_accepts)
  then show "clean_and_validate_sequence sequence = Inr (upper sequence)"
    by (simp only: eq)
qed

theorem analyze_rejects_lowercase_witness:
  "(\<exists>c\<in>set ''AtCG''. c \<in> set ''atcg'') \<and> set ''AtCG'' \<subseteq> set ''ATCGatcg''
   \<and> analyze_sequence (+) None ''AtCG'' 0.5 =
       ([], \<lparr>Detected_Markers = 0, Total_Risk_Score = 0\<rparr>)
   \<and> clean_and_validate_sequence ''AtCG'' = Inr (upper ''AtCG'')"
proof -
  have h1: "\<exists>c\<in>set ''AtCG''. c \<in> set ''atcg''" by simp
  have h2: "\<forall>c\<in>set ''AtCG''. c \<in> set ''ATCGatcg''" by simp
  from h2 have s2: "set ''AtCG'' \<subseteq> set ''ATCGatcg''" by blast
  from analyze_rejects_lowercase [of "''AtCG''" "(+)" None "0.5"] h1 h2 s2 show ?thesis by blast
qed

end
